theory Spec2Isabelle
  imports Complex_Main "HOL-Library.AList"
begin

section \<open>Python strings\<close>

text \<open>
  A Python \<open>str\<close> is modelled as a \<open>string\<close>. The case maps, the whitespace test and
  the digit test are the ASCII ones; a character outside ASCII is left unchanged by
  \<open>str_lower\<close> and \<open>str_upper\<close>, is no whitespace and no digit.
\<close>

definition ascii_lowercase :: string where
  "ascii_lowercase = ''abcdefghijklmnopqrstuvwxyz''"

definition ascii_uppercase :: string where
  "ascii_uppercase = ''ABCDEFGHIJKLMNOPQRSTUVWXYZ''"

definition lower_char :: "char \<Rightarrow> char" where
  "lower_char c = (case map_of (zip ascii_uppercase ascii_lowercase) c of Some l \<Rightarrow> l | None \<Rightarrow> c)"

definition upper_char :: "char \<Rightarrow> char" where
  "upper_char c = (case map_of (zip ascii_lowercase ascii_uppercase) c of Some u \<Rightarrow> u | None \<Rightarrow> c)"

definition str_lower :: "string \<Rightarrow> string" where
  "str_lower s = map lower_char s"

definition str_upper :: "string \<Rightarrow> string" where
  "str_upper s = map upper_char s"

definition is_whitespace :: "char \<Rightarrow> bool" where
  "is_whitespace c =
     (c \<in> {CHR 0x09, CHR 0x0A, CHR 0x0B, CHR 0x0C, CHR 0x0D, CHR 0x1C, CHR 0x1D, CHR 0x1E, CHR 0x1F, CHR '' ''})"

definition str_strip :: "string \<Rightarrow> string" where
  "str_strip s = rev (dropWhile is_whitespace (rev (dropWhile is_whitespace s)))"

definition is_digit :: "char \<Rightarrow> bool" where
  "is_digit c = (c \<in> set ''0123456789'')"

definition str_isnumeric :: "string \<Rightarrow> bool" where
  "str_isnumeric s = (s \<noteq> [] \<and> list_all is_digit s)"

section \<open>Stage 2: text to gloss tokens (modules/stage2\_nlp.py)\<close>

text \<open>
  One token of the spaCy document: the attributes \<open>text\<close>, \<open>lemma_\<close>, \<open>pos_\<close>,
  \<open>is_punct\<close> and \<open>is_space\<close> that the loop reads.
\<close>

record token =
  tok_text :: string
  tok_lemma :: string
  tok_pos :: string
  tok_is_punct :: bool
  tok_is_space :: bool

definition BASE_STOP :: "string set" where
  "BASE_STOP = {''um'', ''uh'', ''like'', ''you_know'', ''i_mean'', ''basically'', ''literally''}"

text \<open>
  \<open>SPACY_STOP\<close> is built from the stop words of the loaded language model, which is
  not part of the repository: they are the parameter \<open>stop_words\<close>. The three negation
  words are discarded from the set.
\<close>

definition SPACY_STOP :: "string set \<Rightarrow> string set" where
  "SPACY_STOP stop_words = stop_words - {''no'', ''not'', ''never''}"

text \<open>The body of the loop over the document; every \<open>continue\<close> returns \<open>toks\<close> as it is.\<close>

definition gloss_step :: "string set \<Rightarrow> bool \<Rightarrow> string list \<Rightarrow> token \<Rightarrow> string list" where
  "gloss_step stop_words keep_negation toks t =
     (if tok_is_space t then toks
      else if str_lower (tok_text t) \<in> BASE_STOP then toks
      else if tok_is_punct t then
        (if tok_text t \<in> {''.'', ''!'', ''?'', '';''} then toks @ [''|''] else toks)
      else
        (let lemma = str_strip (str_lower (tok_lemma t)) in
         if lemma = [] then toks
         else if lemma \<in> SPACY_STOP stop_words then toks
         else if str_isnumeric lemma then toks @ [str_upper lemma]
         else if keep_negation \<and> lemma \<in> {''no'', ''not'', ''never''} then toks @ [str_upper lemma]
         else if tok_pos t \<in> {''PROPN'', ''NOUN'', ''VERB'', ''ADJ'', ''ADV'', ''AUX'', ''PRON''}
           then toks @ [str_upper lemma]
         else toks))"

text \<open>The body of the loop that cleans redundant pauses.\<close>

definition clean_step :: "string list \<Rightarrow> string \<Rightarrow> string list" where
  "clean_step cleaned tok =
     (if tok = ''|'' \<and> (cleaned = [] \<or> last cleaned = ''|'') then cleaned
      else cleaned @ [tok])"

text \<open>
  \<open>text_to_gloss_tokens\<close>: the language pipeline \<open>_NLP\<close> is the parameter \<open>nlp\<close>, a
  function from the text to the list of its tokens.
\<close>

definition text_to_gloss_tokens ::
  "(string \<Rightarrow> token list) \<Rightarrow> string set \<Rightarrow> string \<Rightarrow> bool \<Rightarrow> string list" where
  "text_to_gloss_tokens nlp stop_words txt keep_negation =
     foldl clean_step [] (foldl (gloss_step stop_words keep_negation) [] (nlp txt))"

section \<open>JSON-like values and exceptions\<close>

text \<open>
  The segments, assets and timelines are Python dictionaries and lists of the shapes that
  \<open>json\<close> reads and writes. A dictionary is an association list with distinct keys in
  insertion order: \<open>map_of\<close> looks a key up and \<open>AList.update\<close> assigns to one.
\<close>

datatype jval =
    JNull
  | JBool bool
  | JInt int
  | JFloat real
  | JStr string
  | JList "jval list"
  | JObj "(string \<times> jval) list"

datatype error =
    AttributeError
  | TypeError
  | KeyError
  | FileNotFoundError
  | FileExistsError
  | NotADirectoryError
  | IsADirectoryError
  | PermissionError
  | JSONDecodeError
  | OSError

text \<open>\<open>d.get(k, dflt)\<close> on a dictionary.\<close>

definition py_get :: "(string \<times> jval) list \<Rightarrow> string \<Rightarrow> jval \<Rightarrow> jval" where
  "py_get d k dflt = (case map_of d k of Some v \<Rightarrow> v | None \<Rightarrow> dflt)"

text \<open>
  The values a \<open>for\<close> loop runs over: the elements of a list, the characters of a string,
  the keys of a dictionary; anything else is not iterable.
\<close>

fun py_iter :: "jval \<Rightarrow> error + jval list" where
  "py_iter (JList xs) = Inr xs"
| "py_iter (JStr s) = Inr (map (\<lambda>c. JStr [c]) s)"
| "py_iter (JObj kvs) = Inr (map (\<lambda>kv. JStr (fst kv)) kvs)"
| "py_iter JNull = Inl TypeError"
| "py_iter (JBool b) = Inl TypeError"
| "py_iter (JInt i) = Inl TypeError"
| "py_iter (JFloat r) = Inl TypeError"

section \<open>Stage 3: tokens to assets and the timeline (modules/stage3\_map.py)\<close>

subsection \<open>The sign dictionary\<close>

text \<open>
  What \<open>load_sign_dict\<close> sees of a \<open>Path\<close> while it scans: its \<open>name\<close>, its string
  \<open>str(p)\<close>, and the entries \<open>iterdir()\<close> yields in their order when it is a directory
  (\<open>None\<close> when \<open>is_dir()\<close> is false).
\<close>

datatype dirent = Dirent (ent_name: string) (ent_str: string) (ent_children: "dirent list option")

text \<open>\<open>Path.suffix\<close>: the part of the name from its last dot, when that dot is neither the
  first nor the last character.\<close>

definition path_suffix :: "string \<Rightarrow> string" where
  "path_suffix name =
     (if CHR ''.'' \<notin> set name then []
      else
        (let i = length name - length (takeWhile (\<lambda>c. c \<noteq> CHR ''.'') (rev name)) - 1
         in if 0 < i \<and> i < length name - 1 then drop i name else []))"

definition is_media :: "dirent \<Rightarrow> bool" where
  "is_media file = (str_lower (path_suffix (ent_name file)) \<in> set [''.jpg'', ''.png'', ''.mp4'', ''.gif''])"

text \<open>The body of the loop over the folders; the inner loop stops at the first media file.\<close>

definition scan_folder :: "(string \<rightharpoonup> string) \<Rightarrow> dirent \<Rightarrow> (string \<rightharpoonup> string)" where
  "scan_folder mapping folder =
     (case ent_children folder of
        None \<Rightarrow> mapping
      | Some files \<Rightarrow>
          (case find is_media files of
             Some file \<Rightarrow> mapping(str_upper (ent_name folder) \<mapsto> ent_str file)
           | None \<Rightarrow> mapping))"

text \<open>
  \<open>load_sign_dict\<close>: the argument is what is at \<open>dataset_path\<close>, \<open>None\<close> when the path
  does not exist. \<open>iterdir()\<close> on a path that is not a directory raises.
\<close>

definition load_sign_dict :: "dirent option \<Rightarrow> error + (string \<rightharpoonup> string)" where
  "load_sign_dict dataset_path =
     (case dataset_path of
        None \<Rightarrow> Inr Map.empty
      | Some d \<Rightarrow>
          (case ent_children d of
             None \<Rightarrow> Inl NotADirectoryError
           | Some folders \<Rightarrow> Inr (foldl scan_folder Map.empty folders)))"

subsection \<open>One token\<close>

definition ALPHABET :: "char \<rightharpoonup> string" where
  "ALPHABET = map_of (map (\<lambda>c. (c, ''FINGERSPELL_'' @ [c])) ''ABCDEFGHIJKLMNOPQRSTUVWXYZ'')"

definition pause_asset :: jval where
  "pause_asset = JObj [(''type'', JStr ''pause''), (''dur'', JFloat 0.4)]"

definition image_asset :: "string \<Rightarrow> string \<Rightarrow> jval" where
  "image_asset path label = JObj [(''type'', JStr ''image''), (''path'', JStr path), (''label'', JStr label)]"

definition fingerspell_asset :: "string \<Rightarrow> char \<Rightarrow> jval" where
  "fingerspell_asset label ch =
     JObj [(''type'', JStr ''fingerspell''), (''label'', JStr label), (''char'', JStr [ch])]"

definition text_asset :: "string \<Rightarrow> jval" where
  "text_asset label = JObj [(''type'', JStr ''text''), (''label'', JStr label)]"

definition fingerspell_step :: "jval list \<Rightarrow> char \<Rightarrow> jval list" where
  "fingerspell_step assets ch =
     (case ALPHABET ch of
        Some label \<Rightarrow> assets @ [fingerspell_asset label ch]
      | None \<Rightarrow> assets)"

text \<open>
  \<open>token_to_assets\<close>. The parameter \<open>path_str\<close> is \<open>str(Path(s))\<close> of the path library.
  The argument \<open>cfg\<close> is not read and is left out. A token that is no string has no
  method \<open>upper\<close>.
\<close>

definition token_to_assets :: "(string \<Rightarrow> string) \<Rightarrow> jval \<Rightarrow> (string \<rightharpoonup> string) \<Rightarrow> error + jval list" where
  "token_to_assets path_str tok mapping =
     (case tok of
        JStr s \<Rightarrow>
          (let token = str_upper s in
           if token = ''|'' then Inr [pause_asset]
           else
             (case mapping token of
                Some p \<Rightarrow> Inr [image_asset (path_str p) token]
              | None \<Rightarrow>
                  (let assets = foldl fingerspell_step [] token in
                   if assets = [] then Inr [text_asset token] else Inr assets)))
      | _ \<Rightarrow> Inl AttributeError)"

text \<open>The \<open>type\<close> of an asset, the empty string for a value that has none.\<close>

definition asset_type :: "jval \<Rightarrow> string" where
  "asset_type a =
     (case a of
        JObj kv \<Rightarrow> (case map_of kv ''type'' of Some (JStr t) \<Rightarrow> t | _ \<Rightarrow> [])
      | _ \<Rightarrow> [])"

subsection \<open>The timeline\<close>

fun resolve_tokens ::
  "(string \<Rightarrow> string) \<Rightarrow> (string \<rightharpoonup> string) \<Rightarrow> jval list \<Rightarrow> jval list \<Rightarrow> error + jval list" where
  "resolve_tokens path_str mapping [] seg_items = Inr seg_items"
| "resolve_tokens path_str mapping (tok # toks) seg_items =
     (case token_to_assets path_str tok mapping of
        Inl e \<Rightarrow> Inl e
      | Inr assets \<Rightarrow> resolve_tokens path_str mapping toks (seg_items @ assets))"

text \<open>
  The progress line printed for each segment reads \<open>seg['id']\<close> and \<open>seg['text'][:40]\<close>:
  a missing key and a text that cannot be sliced raise. The output itself is not modelled.
\<close>

definition print_segment :: "(string \<times> jval) list \<Rightarrow> error + unit" where
  "print_segment seg =
     (case map_of seg ''id'' of
        None \<Rightarrow> Inl KeyError
      | Some i \<Rightarrow>
          (case map_of seg ''text'' of
             None \<Rightarrow> Inl KeyError
           | Some (JStr s) \<Rightarrow> Inr ()
           | Some (JList xs) \<Rightarrow> Inr ()
           | Some _ \<Rightarrow> Inl TypeError))"

definition timeline_entry ::
  "(string \<Rightarrow> string) \<Rightarrow> (string \<rightharpoonup> string) \<Rightarrow> jval \<Rightarrow> error + jval" where
  "timeline_entry path_str mapping seg =
     (case seg of
        JObj kv \<Rightarrow>
          (case py_iter (py_get kv ''gloss'' (JList [])) of
             Inl e \<Rightarrow> Inl e
           | Inr toks \<Rightarrow>
               (case resolve_tokens path_str mapping toks [] of
                  Inl e \<Rightarrow> Inl e
                | Inr seg_items \<Rightarrow>
                    (case print_segment kv of
                       Inl e \<Rightarrow> Inl e
                     | Inr u \<Rightarrow>
                         Inr (JObj
                           [(''id'', py_get kv ''id'' JNull),
                            (''start'', py_get kv ''start'' JNull),
                            (''end'', py_get kv ''end'' JNull),
                            (''text'', py_get kv ''text'' JNull),
                            (''gloss'', py_get kv ''gloss'' JNull),
                            (''emotion'', py_get kv ''emotion'' (JObj [])),
                            (''items'', JList seg_items)]))))
      | _ \<Rightarrow> Inl AttributeError)"

fun build_entries ::
  "(string \<Rightarrow> string) \<Rightarrow> (string \<rightharpoonup> string) \<Rightarrow> jval list \<Rightarrow> jval list \<Rightarrow> error + jval list" where
  "build_entries path_str mapping [] timeline = Inr timeline"
| "build_entries path_str mapping (seg # segs) timeline =
     (case timeline_entry path_str mapping seg of
        Inl e \<Rightarrow> Inl e
      | Inr entry \<Rightarrow> build_entries path_str mapping segs (timeline @ [entry]))"

text \<open>
  \<open>build_sign_timeline\<close>: \<open>dataset_path\<close> is the module's global, given as for
  \<open>load_sign_dict\<close>; \<open>gloss_json\<close> is a dictionary.
\<close>

definition build_sign_timeline ::
  "(string \<Rightarrow> string) \<Rightarrow> dirent option \<Rightarrow> (string \<times> jval) list \<Rightarrow> error + jval" where
  "build_sign_timeline path_str dataset_path gloss_json =
     (case load_sign_dict dataset_path of
        Inl e \<Rightarrow> Inl e
      | Inr mapping \<Rightarrow>
          (case py_iter (py_get gloss_json ''segments'' (JList [])) of
             Inl e \<Rightarrow> Inl e
           | Inr segs \<Rightarrow>
               (case build_entries path_str mapping segs [] of
                  Inl e \<Rightarrow> Inl e
                | Inr timeline \<Rightarrow> Inr (JObj [(''timeline'', JList timeline)]))))"

subsection \<open>Well-formed segments\<close>

text \<open>
  A segment as the gloss stage writes it and the timeline reads it: a dictionary with
  an \<open>id\<close>, a \<open>text\<close> that is a string, and a \<open>gloss\<close> that is a list of strings
  when it is there.
\<close>

definition is_str :: "jval \<Rightarrow> bool" where
  "is_str v = (case v of JStr s \<Rightarrow> True | _ \<Rightarrow> False)"

definition well_formed_segment :: "jval \<Rightarrow> bool" where
  "well_formed_segment seg =
     (case seg of
        JObj kv \<Rightarrow>
          map_of kv ''id'' \<noteq> None
          \<and> (case map_of kv ''text'' of Some (JStr s) \<Rightarrow> True | _ \<Rightarrow> False)
          \<and> (case py_get kv ''gloss'' (JList []) of JList toks \<Rightarrow> list_all is_str toks | _ \<Rightarrow> False)
      | _ \<Rightarrow> False)"

text \<open>
  What a timeline entry \<open>en\<close> has of its segment \<open>kv\<close>: the seven keys of an entry, the
  value of the segment for each key the segment has, and no items when the gloss of the
  segment is empty.
\<close>

definition carried_through :: "(string \<times> jval) list \<Rightarrow> (string \<times> jval) list \<Rightarrow> bool" where
  "carried_through kv en \<longleftrightarrow>
     map fst en = [''id'', ''start'', ''end'', ''text'', ''gloss'', ''emotion'', ''items'']
     \<and> (\<forall>k\<in>{''id'', ''start'', ''end'', ''text'', ''gloss'', ''emotion''}.
           \<forall>v. map_of kv k = Some v \<longrightarrow> map_of en k = Some v)
     \<and> (py_get kv ''gloss'' (JList []) = JList [] \<longrightarrow> map_of en ''items'' = Some (JList []))"

section \<open>Files\<close>

text \<open>
  A path is the list of its components. The world holds what is at each path: a
  directory, or a file whose content is a JSON document or is malformed (an empty or
  torn file, bytes that are no JSON). Permissions, full disks and every other reason
  for which the operating system refuses an operation are the world's \<open>fault\<close>: an
  operation on a path fails with the error the world gives for it.
\<close>

type_synonym path = "string list"

datatype content = Valid jval | Malformed

datatype node = Directory | File content

datatype io_op = Mkdir | OpenRead | Read | OpenWrite | Write | Unlink

record world =
  nodes :: "(path \<times> node) list"
  fault :: "io_op \<Rightarrow> path \<Rightarrow> error option"

definition lookup :: "world \<Rightarrow> path \<Rightarrow> node option" where
  "lookup w p = map_of (nodes w) p"

definition exists :: "world \<Rightarrow> path \<Rightarrow> bool" where
  "exists w p = (p = [] \<or> lookup w p \<noteq> None)"


definition is_file :: "world \<Rightarrow> path \<Rightarrow> bool" where
  "is_file w p = (p \<noteq> [] \<and> (\<exists>c. lookup w p = Some (File c)))"






definition unlink :: "world \<Rightarrow> path \<Rightarrow> error + world" where
  "unlink w p =
     (case fault w Unlink p of
        Some e \<Rightarrow> Inl e
      | None \<Rightarrow>
          (if p = [] then Inl IsADirectoryError
           else case lookup w p of
             None \<Rightarrow> Inl FileNotFoundError
           | Some Directory \<Rightarrow> Inl IsADirectoryError
           | Some (File c) \<Rightarrow> Inr (w\<lparr>nodes := AList.delete p (nodes w)\<rparr>)))"



section \<open>The cache manager (utils/cache\_manager.py)\<close>

text \<open>
  The manager's state is its directory \<open>cache_dir\<close>. A file name made from a video
  identifier is one component below it. The messages printed are not modelled.
  A Python \<open>None\<close> that stands for a missing payload is \<open>JNull\<close>, which is also what
  \<open>json.load\<close> gives for the document \<open>null\<close>.
\<close>

definition get_cache_key :: "string \<Rightarrow> string" where
  "get_cache_key video_id = ''video_'' @ video_id"

definition get_cache_file :: "path \<Rightarrow> string \<Rightarrow> path" where
  "get_cache_file cache_dir video_id = cache_dir @ [get_cache_key video_id @ ''.json'']"

definition stage_cache_file :: "path \<Rightarrow> string \<Rightarrow> string \<Rightarrow> path" where
  "stage_cache_file cache_dir video_id stage =
     cache_dir @ [''video_'' @ video_id @ ''_stage_'' @ stage @ ''.json'']"





text \<open>\<open>cache_dir.glob("*.json")\<close>: the entries directly below the directory whose name
  ends in \<open>.json\<close>.\<close>

definition endswith :: "string \<Rightarrow> string \<Rightarrow> bool" where
  "endswith s suf = (length suf \<le> length s \<and> drop (length s - length suf) s = suf)"

definition glob_json :: "world \<Rightarrow> path \<Rightarrow> path list" where
  "glob_json w cache_dir =
     filter (\<lambda>p. p \<noteq> [] \<and> butlast p = cache_dir \<and> endswith (last p) ''.json'') (map fst (nodes w))"

fun unlink_all :: "world \<Rightarrow> path list \<Rightarrow> world \<times> (error + unit)" where
  "unlink_all w [] = (w, Inr ())"
| "unlink_all w (p # ps) =
     (case unlink w p of
        Inl e \<Rightarrow> (w, Inl e)
      | Inr w' \<Rightarrow> unlink_all w' ps)"

text \<open>
  \<open>clear_cache\<close>: \<open>if video_id:\<close> holds for a string that is not empty. The result is
  \<open>Some True\<close>, \<open>Some False\<close>, or \<open>None\<close> where the function ends without a
  \<open>return\<close>.
\<close>

definition clear_all :: "world \<Rightarrow> path \<Rightarrow> world \<times> (error + bool option)" where
  "clear_all w cache_dir =
     (case unlink_all w (glob_json w cache_dir) of
        (w', Inl e) \<Rightarrow> (w', Inl e)
      | (w', Inr u) \<Rightarrow> (w', Inr (Some True)))"

definition clear_one :: "world \<Rightarrow> path \<Rightarrow> string \<Rightarrow> world \<times> (error + bool option)" where
  "clear_one w cache_dir video_id =
     (let cache_file = get_cache_file cache_dir video_id in
      if exists w cache_file then
        (case unlink w cache_file of
           Inl e \<Rightarrow> (w, Inl e)
         | Inr w' \<Rightarrow> (w', Inr (Some True)))
      else (w, Inr None))"

definition clear_body :: "world \<Rightarrow> path \<Rightarrow> string option \<Rightarrow> world \<times> (error + bool option)" where
  "clear_body w cache_dir video_id =
     (case video_id of
        None \<Rightarrow> clear_all w cache_dir
      | Some v \<Rightarrow> if v \<noteq> [] then clear_one w cache_dir v else clear_all w cache_dir)"

definition clear_cache :: "world \<Rightarrow> path \<Rightarrow> string option \<Rightarrow> world \<times> (error + bool option)" where
  "clear_cache w cache_dir video_id =
     (case clear_body w cache_dir video_id of
        (w', Inl e) \<Rightarrow> (w', Inr (Some False))
      | (w', Inr r) \<Rightarrow> (w', Inr r))"

section \<open>Configuration and JSON output (utils/config.py, utils/helpers.py)\<close>

record config =
  output_dir :: path
  tmp_dir :: path
  signs_dir :: path
  keep_negation :: bool



section \<open>Stage 2: emotions (modules/stage2\_emotion.py)\<close>









section \<open>Example inputs\<close>

text \<open>
  The document of the text \<open>Stop! Never stop.\<close>: five tokens, two of them punctuation.
  The language model is the function that gives this document for this text. The stop
  words are a few of the model's list, the three negation words among them.
  \<open>double_pauses\<close> is a document with punctuation at its start and in a row, and
  \<open>negation_nlp\<close> a language model that gives three negation words.
\<close>

definition word_tok :: "string \<Rightarrow> string \<Rightarrow> string \<Rightarrow> token" where
  "word_tok s l p =
     \<lparr>tok_text = s, tok_lemma = l, tok_pos = p, tok_is_punct = False, tok_is_space = False\<rparr>"

definition punct_tok :: "string \<Rightarrow> token" where
  "punct_tok s =
     \<lparr>tok_text = s, tok_lemma = s, tok_pos = ''PUNCT'', tok_is_punct = True, tok_is_space = False\<rparr>"

definition stop_never_stop :: "token list" where
  "stop_never_stop =
     [word_tok ''Stop'' ''stop'' ''VERB'', punct_tok ''!'',
      word_tok ''Never'' ''never'' ''ADV'', word_tok ''stop'' ''stop'' ''VERB'', punct_tok ''.'']"

definition double_pauses :: "token list" where
  "double_pauses =
     [punct_tok ''?'', punct_tok ''!'', word_tok ''Stop'' ''stop'' ''VERB'',
      punct_tok ''.'', punct_tok ''.'', word_tok ''now'' ''now'' ''ADV'']"

definition example_nlp :: "string \<Rightarrow> token list" where
  "example_nlp txt = (if txt = ''Stop! Never stop.'' then stop_never_stop else [])"

definition negation_nlp :: "string \<Rightarrow> token list" where
  "negation_nlp txt =
     [word_tok ''Never'' ''Never'' ''ADV'', word_tok ''not'' ''not'' ''PART'',
      word_tok ''no'' ''no'' ''DET'']"

definition example_stop_words :: "string set" where
  "example_stop_words = {''a'', ''an'', ''the'', ''is'', ''you'', ''no'', ''not'', ''never''}"

text \<open>Two segments with their gloss, the second with no gloss token.\<close>

definition two_segments :: "jval list" where
  "two_segments =
     [JObj [(''id'', JInt 0), (''start'', JFloat 0), (''end'', JFloat 1.5), (''text'', JStr ''Hi there!''),
            (''gloss'', JList [JStr ''HI'', JStr ''|'']),
            (''emotion'', JObj [(''label'', JStr ''joy''), (''score'', JFloat 0.9)])],
      JObj [(''id'', JInt 1), (''start'', JFloat 1.5), (''end'', JFloat 2), (''text'', JStr ''of the''),
            (''gloss'', JList [])]]"


definition example_cache :: world where
  "example_cache =
     \<lparr>nodes = [([''cache''], Directory),
               ([''cache'', ''video_abc.json''], File (Valid (JObj []))),
               ([''cache'', ''video_abc_stage_gloss.json''], File (Valid (JObj [(''segments'', JList [])]))),
               ([''cache'', ''notes.txt''], File Malformed),
               ([''cache'', ''video_abc_stage_timeline.json''], File (Valid (JObj [(''timeline'', JList [])])))],
      fault = (\<lambda>op p. None)\<rparr>"





section \<open>Facts about strings\<close>

lemmas str_simps =
  str_lower_def str_upper_def str_strip_def lower_char_def upper_char_def
  ascii_lowercase_def ascii_uppercase_def is_whitespace_def is_digit_def str_isnumeric_def

lemmas gloss_simps =
  text_to_gloss_tokens_def gloss_step_def clean_step_def BASE_STOP_def SPACY_STOP_def
  word_tok_def punct_tok_def stop_never_stop_def example_nlp_def example_stop_words_def

section \<open>The cleaning loop of the gloss reducer\<close>

lemma clean_step_hd:
  assumes "cleaned \<noteq> [] \<longrightarrow> hd cleaned \<noteq> ''|''"
  shows "clean_step cleaned tok \<noteq> [] \<longrightarrow> hd (clean_step cleaned tok) \<noteq> ''|''"
  using assms by (cases cleaned) (auto simp: clean_step_def)

lemma clean_step_adjacent:
  assumes "\<forall>i. Suc i < length cleaned \<longrightarrow> \<not> (cleaned ! i = ''|'' \<and> cleaned ! Suc i = ''|'')"
  shows "\<forall>i. Suc i < length (clean_step cleaned tok) \<longrightarrow>
           \<not> (clean_step cleaned tok ! i = ''|'' \<and> clean_step cleaned tok ! Suc i = ''|'')"
proof (cases "tok = ''|'' \<and> (cleaned = [] \<or> last cleaned = ''|'')")
  case True
  then show ?thesis using assms by (simp add: clean_step_def)
next
  case False
  then have eq: "clean_step cleaned tok = cleaned @ [tok]"
    by (auto simp add: clean_step_def)
  show ?thesis
  proof (intro allI impI)
    fix i
    assume "Suc i < length (clean_step cleaned tok)"
    then have i: "i < length cleaned" by (simp add: eq)
    show "\<not> (clean_step cleaned tok ! i = ''|'' \<and> clean_step cleaned tok ! Suc i = ''|'')"
    proof (cases "Suc i < length cleaned")
      case True
      then show ?thesis using assms i by (simp add: eq nth_append)
    next
      case last_pair: False
      then have len: "Suc i = length cleaned" using i by simp
      have ne: "cleaned \<noteq> []" using i by auto
      then have "last cleaned = cleaned ! (length cleaned - 1)" by (rule last_conv_nth)
      then have "cleaned ! i = last cleaned" using len by (metis diff_Suc_1)
      with ne show ?thesis using len i False by (auto simp add: eq nth_append)
    qed
  qed
qed

lemma foldl_clean_step_pauses:
  "(\<forall>i. Suc i < length (foldl clean_step [] toks) \<longrightarrow>
       \<not> (foldl clean_step [] toks ! i = ''|'' \<and> foldl clean_step [] toks ! Suc i = ''|''))
   \<and> (foldl clean_step [] toks \<noteq> [] \<longrightarrow> hd (foldl clean_step [] toks) \<noteq> ''|'')"
proof (induction toks rule: rev_induct)
  case Nil
  then show ?case by simp
next
  case (snoc tok toks)
  then show ?case using clean_step_hd clean_step_adjacent by simp
qed

lemma double_pauses_gloss:
  "text_to_gloss_tokens (\<lambda>t. double_pauses) example_stop_words txt False = [''STOP'', ''|'', ''NOW'']"
  by (simp add: gloss_simps double_pauses_def str_simps)

text \<open>
  C4. Whatever the text, the language model, the stop words and the flag, the tokens
  returned by \<open>text_to_gloss_tokens\<close> hold no two adjacent pause markers, and their
  first token is no pause marker.
\<close>

theorem gloss_pauses_collapsed:
  "(\<forall>i. Suc i < length (text_to_gloss_tokens nlp stop_words txt keep_neg) \<longrightarrow>
       \<not> (text_to_gloss_tokens nlp stop_words txt keep_neg ! i = ''|''
          \<and> text_to_gloss_tokens nlp stop_words txt keep_neg ! Suc i = ''|''))
   \<and> (text_to_gloss_tokens nlp stop_words txt keep_neg \<noteq> [] \<longrightarrow>
        hd (text_to_gloss_tokens nlp stop_words txt keep_neg) \<noteq> ''|'')"
  unfolding text_to_gloss_tokens_def by (rule foldl_clean_step_pauses)

theorem gloss_pauses_collapsed_witness:
  "Suc 0 < length (text_to_gloss_tokens (\<lambda>t. double_pauses) example_stop_words ''?! Stop.. now'' False)
   \<and> \<not> (text_to_gloss_tokens (\<lambda>t. double_pauses) example_stop_words ''?! Stop.. now'' False ! 0 = ''|''
     \<and> text_to_gloss_tokens (\<lambda>t. double_pauses) example_stop_words ''?! Stop.. now'' False ! Suc 0 = ''|'')
   \<and> text_to_gloss_tokens (\<lambda>t. double_pauses) example_stop_words ''?! Stop.. now'' False \<noteq> []
   \<and> hd (text_to_gloss_tokens (\<lambda>t. double_pauses) example_stop_words ''?! Stop.. now'' False) \<noteq> ''|''"
  using gloss_pauses_collapsed [of "\<lambda>t. double_pauses" example_stop_words "''?! Stop.. now''" False]
  by (simp add: double_pauses_gloss)

section \<open>The example text\<close>

lemma stop_never_stop_value:
  assumes "nlp txt = stop_never_stop" and "''stop'' \<notin> stop_words"
  shows "text_to_gloss_tokens nlp stop_words txt True = [''STOP'', ''|'', ''NEVER'', ''STOP'', ''|'']"
  using assms by (simp add: gloss_simps str_simps)

lemma example_gloss:
  "text_to_gloss_tokens example_nlp example_stop_words ''Stop! Never stop.'' True =
     [''STOP'', ''|'', ''NEVER'', ''STOP'', ''|'']"
  using stop_never_stop_value [of example_nlp "''Stop! Never stop.''" example_stop_words]
  by (simp add: example_nlp_def example_stop_words_def)

text \<open>
  C1, as stated: for the text \<open>Stop! Never stop.\<close> with \<open>keep_negation\<close> set, the tokens
  hold \<open>NEVER\<close>, hold exactly one pause marker, and do not end with a pause marker.
  This fails: the final full stop gives a second pause marker, and the cleaning loop
  drops a pause marker only at the start of the output and after another one.
\<close>

theorem trailing_pause_counterexample:
  "\<not> (''NEVER'' \<in> set (text_to_gloss_tokens example_nlp example_stop_words ''Stop! Never stop.'' True)
      \<and> count_list (text_to_gloss_tokens example_nlp example_stop_words ''Stop! Never stop.'' True)
            ''|'' = 1
      \<and> last (text_to_gloss_tokens example_nlp example_stop_words ''Stop! Never stop.'' True) \<noteq> ''|'')"
  by (simp add: example_gloss)

text \<open>
  C1, amended: for the text \<open>Stop! Never stop.\<close> with \<open>keep_negation\<close> set, whenever the
  language model gives the five tokens of \<open>stop_never_stop\<close> and \<open>stop\<close> is no stop
  word, the tokens are \<open>STOP | NEVER STOP |\<close>: they hold \<open>NEVER\<close>, exactly two pause
  markers, one between the two sentences and one at the end, and the output ends with a
  pause marker.
\<close>

theorem trailing_pause_kept:
  assumes "nlp txt = stop_never_stop" and "''stop'' \<notin> stop_words"
  shows "text_to_gloss_tokens nlp stop_words txt True = [''STOP'', ''|'', ''NEVER'', ''STOP'', ''|'']
    \<and> ''NEVER'' \<in> set (text_to_gloss_tokens nlp stop_words txt True)
    \<and> count_list (text_to_gloss_tokens nlp stop_words txt True) ''|'' = 2
    \<and> text_to_gloss_tokens nlp stop_words txt True ! 1 = ''|''
    \<and> last (text_to_gloss_tokens nlp stop_words txt True) = ''|''"
  using assms stop_never_stop_value [of nlp "txt" stop_words] by simp

theorem trailing_pause_kept_witness:
  "example_nlp ''Stop! Never stop.'' = stop_never_stop
   \<and> ''stop'' \<notin> example_stop_words
   \<and> count_list (text_to_gloss_tokens example_nlp example_stop_words ''Stop! Never stop.'' True)
        ''|'' = 2
   \<and> last (text_to_gloss_tokens example_nlp example_stop_words ''Stop! Never stop.'' True) = ''|''"
proof -
  have doc: "example_nlp ''Stop! Never stop.'' = stop_never_stop"
    by (simp add: example_nlp_def)
  have stop: "''stop'' \<notin> example_stop_words"
    by (simp add: example_stop_words_def)
  show ?thesis
    using doc stop trailing_pause_kept [of example_nlp "''Stop! Never stop.''" example_stop_words]
    by simp
qed

section \<open>Negation words\<close>

lemma gloss_step_keeps: "set toks \<subseteq> set (gloss_step sw kn toks t)"
  by (auto simp: gloss_step_def Let_def)

lemma foldl_gloss_step_keeps: "set toks \<subseteq> set (foldl (gloss_step sw kn) toks doc)"
proof (induction doc arbitrary: toks)
  case Nil
  then show ?case by simp
next
  case (Cons t doc)
  have "set toks \<subseteq> set (gloss_step sw kn toks t)" by (rule gloss_step_keeps)
  also have "\<dots> \<subseteq> set (foldl (gloss_step sw kn) (gloss_step sw kn toks t) doc)" by (rule Cons.IH)
  finally show ?case by simp
qed

lemma gloss_step_negation:
  assumes "\<not> tok_is_space t" and "str_lower (tok_text t) \<notin> BASE_STOP" and "\<not> tok_is_punct t"
    and "str_strip (str_lower (tok_lemma t)) \<in> {''no'', ''not'', ''never''}"
  shows "gloss_step sw True toks t = toks @ [str_upper (str_strip (str_lower (tok_lemma t)))]"
proof -
  let ?l = "str_strip (str_lower (tok_lemma t))"
  have "?l \<noteq> []" using assms(4) by auto
  moreover have "?l \<notin> SPACY_STOP sw" using assms(4) by (auto simp: SPACY_STOP_def)
  ultimately show ?thesis using assms by (simp add: gloss_step_def Let_def)
qed

lemma foldl_gloss_step_negation:
  assumes "t \<in> set doc" and "\<not> tok_is_space t" and "str_lower (tok_text t) \<notin> BASE_STOP"
    and "\<not> tok_is_punct t"
    and "str_strip (str_lower (tok_lemma t)) \<in> {''no'', ''not'', ''never''}"
  shows "str_upper (str_strip (str_lower (tok_lemma t))) \<in> set (foldl (gloss_step sw True) toks doc)"
  using assms(1)
proof (induction doc arbitrary: toks)
  case Nil
  then show ?case by simp
next
  case (Cons u doc)
  show ?case
  proof (cases "u = t")
    case True
    have "str_upper (str_strip (str_lower (tok_lemma t))) \<in> set (gloss_step sw True toks t)"
      using gloss_step_negation [OF assms(2-5)] by simp
    then show ?thesis using foldl_gloss_step_keeps True by fastforce
  next
    case False
    then have "t \<in> set doc" using Cons.prems by simp
    then show ?thesis using Cons.IH by simp
  qed
qed

lemma clean_step_keeps: "set cleaned \<subseteq> set (clean_step cleaned tok)"
  by (auto simp: clean_step_def)

lemma foldl_clean_step_keeps: "set cleaned \<subseteq> set (foldl clean_step cleaned toks)"
proof (induction toks arbitrary: cleaned)
  case Nil
  then show ?case by simp
next
  case (Cons t toks)
  have "set cleaned \<subseteq> set (clean_step cleaned t)" by (rule clean_step_keeps)
  also have "\<dots> \<subseteq> set (foldl clean_step (clean_step cleaned t) toks)" by (rule Cons.IH)
  finally show ?case by simp
qed

lemma foldl_clean_step_word:
  assumes "x \<in> set toks" and "x \<noteq> ''|''"
  shows "x \<in> set (foldl clean_step cleaned toks)"
  using assms(1)
proof (induction toks arbitrary: cleaned)
  case Nil
  then show ?case by simp
next
  case (Cons t toks)
  show ?case
  proof (cases "t = x")
    case True
    then have "x \<in> set (clean_step cleaned t)" using assms(2) by (simp add: clean_step_def)
    then show ?thesis using foldl_clean_step_keeps by fastforce
  next
    case False
    then show ?thesis using Cons by simp
  qed
qed

lemma upper_lower_char: "upper_char (lower_char c) = upper_char c"
  by (simp add: upper_char_def lower_char_def ascii_lowercase_def ascii_uppercase_def)

lemma str_upper_lower: "str_upper (str_lower s) = str_upper s"
  by (simp add: str_upper_def str_lower_def upper_lower_char)

lemma negation_upper:
  assumes "str_lower l \<in> {''no'', ''not'', ''never''}"
  shows "str_strip (str_lower l) = str_lower l" and "str_upper l \<in> {''NO'', ''NOT'', ''NEVER''}"
    and "str_upper l \<noteq> ''|''"
proof -
  show "str_strip (str_lower l) = str_lower l"
    using assms by (auto simp: str_strip_def is_whitespace_def)
  have "str_upper (str_lower l) \<in> {''NO'', ''NOT'', ''NEVER''}"
    using assms by (auto simp: str_upper_def upper_char_def ascii_lowercase_def ascii_uppercase_def)
  then show "str_upper l \<in> {''NO'', ''NOT'', ''NEVER''}" by (simp add: str_upper_lower)
  then show "str_upper l \<noteq> ''|''" by auto
qed

text \<open>
  C5. With \<open>keep_negation\<close> set, a word token of the document (no whitespace, no
  punctuation, its surface form no filler word) whose lemma is \<open>no\<close>, \<open>not\<close> or
  \<open>never\<close> in any letter case gives its uppercase form in the output, whatever the stop
  words of the language model are.
\<close>

theorem negation_retained:
  assumes "t \<in> set (nlp txt)"
    and "\<not> tok_is_space t" and "\<not> tok_is_punct t" and "str_lower (tok_text t) \<notin> BASE_STOP"
    and "str_lower (tok_lemma t) \<in> {''no'', ''not'', ''never''}"
  shows "str_upper (tok_lemma t) \<in> set (text_to_gloss_tokens nlp stop_words txt True)
    \<and> str_upper (tok_lemma t) \<in> {''NO'', ''NOT'', ''NEVER''}"
proof -
  note neg = negation_upper [OF assms(5)]
  have lem: "str_strip (str_lower (tok_lemma t)) \<in> {''no'', ''not'', ''never''}"
    using assms(5) neg(1) by simp
  have "str_upper (str_strip (str_lower (tok_lemma t)))
      \<in> set (foldl (gloss_step stop_words True) [] (nlp txt))"
    by (rule foldl_gloss_step_negation [OF assms(1,2,4,3) lem])
  then have "str_upper (tok_lemma t) \<in> set (foldl (gloss_step stop_words True) [] (nlp txt))"
    by (simp add: neg(1) str_upper_lower)
  then have "str_upper (tok_lemma t) \<in> set (text_to_gloss_tokens nlp stop_words txt True)"
    unfolding text_to_gloss_tokens_def using neg(3) by (rule foldl_clean_step_word)
  then show ?thesis using neg(2) by simp
qed

theorem negation_retained_witness:
  "word_tok ''Never'' ''Never'' ''ADV'' \<in> set (negation_nlp ''Never not no'')
   \<and> ''never'' \<in> example_stop_words
   \<and> str_upper ''Never'' = ''NEVER''
   \<and> ''NEVER'' \<in> set (text_to_gloss_tokens negation_nlp example_stop_words ''Never not no'' True)"
  using negation_retained [of "word_tok ''Never'' ''Never'' ''ADV''" negation_nlp "''Never not no''"
      example_stop_words]
  by (simp add: negation_nlp_def word_tok_def BASE_STOP_def example_stop_words_def str_simps)

section \<open>Tokens to assets\<close>

lemma upper_char_pause: "upper_char c = CHR ''|'' \<longleftrightarrow> c = CHR ''|''"
  by (simp add: upper_char_def ascii_lowercase_def ascii_uppercase_def)

lemma str_upper_pause: "str_upper s = ''|'' \<longleftrightarrow> s = ''|''"
proof (cases s)
  case Nil
  then show ?thesis by (simp add: str_upper_def)
next
  case (Cons c cs)
  then show ?thesis by (auto simp add: str_upper_def upper_char_pause)
qed

lemma map_of_tabulate:
  "map_of (map (\<lambda>k. (k, f k)) ks) k = (if k \<in> set ks then Some (f k) else None)"
  by (induction ks) auto

lemma ALPHABET_conv:
  "ALPHABET c = (if c \<in> set ascii_uppercase then Some (''FINGERSPELL_'' @ [c]) else None)"
  unfolding ALPHABET_def ascii_uppercase_def by (rule map_of_tabulate)

lemma foldl_fingerspell_step:
  "foldl fingerspell_step assets s =
     assets @ map (\<lambda>c. fingerspell_asset (''FINGERSPELL_'' @ [c]) c)
       (filter (\<lambda>c. c \<in> set ascii_uppercase) s)"
  by (induction s arbitrary: assets) (simp_all add: fingerspell_step_def ALPHABET_conv)

lemma asset_type_fingerspell [simp]: "asset_type (fingerspell_asset l c) = ''fingerspell''"
  by (simp add: asset_type_def fingerspell_asset_def)

lemma asset_type_text [simp]: "asset_type (text_asset l) = ''text''"
  by (simp add: asset_type_def text_asset_def)

lemma token_to_assets_str:
  "token_to_assets path_str (JStr s) mapping =
     Inr (if s = ''|'' then [pause_asset]
          else case mapping (str_upper s) of
            Some p \<Rightarrow> [image_asset (path_str p) (str_upper s)]
          | None \<Rightarrow>
              (if \<exists>c\<in>set (str_upper s). c \<in> set ascii_uppercase
               then map (\<lambda>c. fingerspell_asset (''FINGERSPELL_'' @ [c]) c)
                      (filter (\<lambda>c. c \<in> set ascii_uppercase) (str_upper s))
               else [text_asset (str_upper s)]))"
  unfolding token_to_assets_def
  by (auto simp add: Let_def str_upper_pause foldl_fingerspell_step filter_empty_conv
      split: option.split)






section \<open>The timeline builder\<close>

lemma resolve_tokens_strings:
  assumes "list_all is_str toks"
  shows "\<exists>assets. resolve_tokens path_str mapping toks seg_items = Inr (seg_items @ assets)"
  using assms
proof (induction toks arbitrary: seg_items)
  case Nil
  then show ?case by simp
next
  case (Cons tok toks)
  then obtain s where tok: "tok = JStr s" by (auto simp: is_str_def split: jval.splits)
  obtain assets where a: "token_to_assets path_str tok mapping = Inr assets"
    unfolding tok token_to_assets_str by blast
  from Cons obtain rest where
    "resolve_tokens path_str mapping toks (seg_items @ assets) = Inr ((seg_items @ assets) @ rest)"
    by fastforce
  then show ?case using a by simp
qed

lemma timeline_entry_wf:
  assumes "well_formed_segment seg"
  shows "\<exists>kv en. seg = JObj kv \<and> timeline_entry path_str mapping seg = Inr (JObj en) \<and> carried_through kv en"
proof -
  from assms obtain kv where seg: "seg = JObj kv"
    by (auto simp: well_formed_segment_def split: jval.splits)
  from assms seg obtain i s toks where
    f: "map_of kv ''id'' = Some i" "map_of kv ''text'' = Some (JStr s)"
       "py_get kv ''gloss'' (JList []) = JList toks" "list_all is_str toks"
    by (auto simp: well_formed_segment_def split: jval.splits option.splits)
  obtain assets where r: "resolve_tokens path_str mapping toks [] = Inr assets"
    using resolve_tokens_strings [OF f(4), of path_str mapping "[]"] by auto
  have nil: "toks = [] \<Longrightarrow> assets = []" using r by simp
  have p: "print_segment kv = Inr ()" by (simp add: print_segment_def f)
  have "timeline_entry path_str mapping seg =
      Inr (JObj [(''id'', py_get kv ''id'' JNull), (''start'', py_get kv ''start'' JNull),
                 (''end'', py_get kv ''end'' JNull), (''text'', py_get kv ''text'' JNull),
                 (''gloss'', py_get kv ''gloss'' JNull), (''emotion'', py_get kv ''emotion'' (JObj [])),
                 (''items'', JList assets)])"
    by (simp add: timeline_entry_def seg f r p)
  moreover have "carried_through kv [(''id'', py_get kv ''id'' JNull), (''start'', py_get kv ''start'' JNull),
                 (''end'', py_get kv ''end'' JNull), (''text'', py_get kv ''text'' JNull),
                 (''gloss'', py_get kv ''gloss'' JNull), (''emotion'', py_get kv ''emotion'' (JObj [])),
                 (''items'', JList assets)]"
    using nil f(3) by (auto simp add: carried_through_def py_get_def)
  ultimately show ?thesis using seg by blast
qed

lemma build_entries_wf:
  assumes "\<forall>seg\<in>set segs. well_formed_segment seg"
  shows "\<exists>entries. build_entries path_str mapping segs timeline = Inr (timeline @ entries)
     \<and> length entries = length segs
     \<and> (\<forall>i<length segs. \<exists>kv en. segs ! i = JObj kv \<and> entries ! i = JObj en \<and> carried_through kv en)"
  using assms
proof (induction segs arbitrary: timeline)
  case Nil
  then show ?case by simp
next
  case (Cons seg segs)
  then obtain kv en where e: "seg = JObj kv" "timeline_entry path_str mapping seg = Inr (JObj en)" "carried_through kv en"
    using timeline_entry_wf [of seg path_str mapping] by auto
  from Cons obtain entries where
    ih: "build_entries path_str mapping segs (timeline @ [JObj en]) = Inr ((timeline @ [JObj en]) @ entries)"
        "length entries = length segs"
        "\<forall>i<length segs. \<exists>kv en. segs ! i = JObj kv \<and> entries ! i = JObj en \<and> carried_through kv en"
    by (metis list.set_intros(2))
  have "build_entries path_str mapping (seg # segs) timeline = Inr (timeline @ (JObj en # entries))"
    using e(2) ih(1) by simp
  moreover have "length (JObj en # entries) = length (seg # segs)" using ih(2) by simp
  moreover have "\<forall>i<length (seg # segs). \<exists>kv' en'. (seg # segs) ! i = JObj kv' \<and> (JObj en # entries) ! i = JObj en' \<and> carried_through kv' en'"
  proof (intro allI impI)
    fix i assume "i < length (seg # segs)"
    then show "\<exists>kv' en'. (seg # segs) ! i = JObj kv' \<and> (JObj en # entries) ! i = JObj en' \<and> carried_through kv' en'"
      using e(1,3) ih(3) by (cases i) auto
  qed
  ultimately show ?case by blast
qed


lemma build_sign_timeline_wf:
  assumes "load_sign_dict dataset_path = Inr mapping"
    and "map_of gloss_json ''segments'' = Some (JList segs)"
    and "\<forall>seg\<in>set segs. well_formed_segment seg"
  shows "\<exists>entries.
      build_sign_timeline path_str dataset_path gloss_json = Inr (JObj [(''timeline'', JList entries)])
      \<and> length entries = length segs
      \<and> (\<forall>i<length segs. \<exists>kv en. segs ! i = JObj kv \<and> entries ! i = JObj en \<and> carried_through kv en)"
proof -
  obtain entries where
    e: "build_entries path_str mapping segs [] = Inr ([] @ entries)" "length entries = length segs"
       "\<forall>i<length segs. \<exists>kv en. segs ! i = JObj kv \<and> entries ! i = JObj en \<and> carried_through kv en"
    using build_entries_wf [OF assms(3), of path_str mapping "[]"] by blast
  have "build_sign_timeline path_str dataset_path gloss_json = Inr (JObj [(''timeline'', JList entries)])"
    using e(1) by (simp add: build_sign_timeline_def assms(1,2) py_get_def)
  then show ?thesis using e(2,3) by blast
qed

text \<open>
  C6. When the sign dictionary loads and the segments are well formed,
  \<open>build_sign_timeline\<close> returns a timeline with exactly one entry for each segment,
  in the order of the segments. Each entry has the keys \<open>id\<close>, \<open>start\<close>, \<open>end\<close>,
  \<open>text\<close>, \<open>gloss\<close>, \<open>emotion\<close> and \<open>items\<close>, with the value of the segment for
  each of the first six that the segment has; a segment whose gloss is empty has its
  entry all the same, with no items.
\<close>

theorem build_sign_timeline_entries:
  assumes "load_sign_dict dataset_path = Inr mapping"
    and "map_of gloss_json ''segments'' = Some (JList segs)"
    and "\<forall>seg\<in>set segs. well_formed_segment seg"
  shows "\<exists>entries.
      build_sign_timeline path_str dataset_path gloss_json = Inr (JObj [(''timeline'', JList entries)])
      \<and> length entries = length segs
      \<and> (\<forall>i<length segs. \<exists>kv en. segs ! i = JObj kv \<and> entries ! i = JObj en
            \<and> map fst en = [''id'', ''start'', ''end'', ''text'', ''gloss'', ''emotion'', ''items'']
            \<and> (\<forall>k\<in>{''id'', ''start'', ''end'', ''text'', ''gloss'', ''emotion''}.
                  \<forall>v. map_of kv k = Some v \<longrightarrow> map_of en k = Some v)
            \<and> (py_get kv ''gloss'' (JList []) = JList [] \<longrightarrow> map_of en ''items'' = Some (JList [])))"
  using build_sign_timeline_wf [OF assms, of path_str] unfolding carried_through_def .

lemma two_segments_list: "list_all well_formed_segment two_segments"
  by (simp add: two_segments_def well_formed_segment_def py_get_def is_str_def)

lemma two_segments_wf: "\<forall>seg\<in>set two_segments. well_formed_segment seg"
  using two_segments_list by (simp only: list_all_iff)

theorem build_sign_timeline_entries_witness:
  "load_sign_dict None = Inr Map.empty
   \<and> map_of [(''segments'', JList two_segments)] ''segments'' = Some (JList two_segments)
   \<and> list_all well_formed_segment two_segments
   \<and> (\<exists>entries. build_sign_timeline (\<lambda>s. s) None [(''segments'', JList two_segments)]
          = Inr (JObj [(''timeline'', JList entries)])
        \<and> length entries = 2
        \<and> (\<exists>en. entries ! 1 = JObj en \<and> map_of en ''id'' = Some (JInt 1)
              \<and> map_of en ''items'' = Some (JList [])))"
proof -
  have l: "load_sign_dict None = Inr Map.empty" by (simp add: load_sign_dict_def)
  have s: "map_of [(''segments'', JList two_segments)] ''segments'' = Some (JList two_segments)"
    by simp
  have n: "length two_segments = 2" "two_segments ! 1 = JObj [(''id'', JInt 1), (''start'', JFloat 1.5),
      (''end'', JFloat 2), (''text'', JStr ''of the''), (''gloss'', JList [])]"
    by (simp_all add: two_segments_def)
  obtain entries where e:
    "build_sign_timeline (\<lambda>s. s) None [(''segments'', JList two_segments)] = Inr (JObj [(''timeline'', JList entries)])"
    "length entries = length two_segments"
    "\<forall>i<length two_segments. \<exists>kv en. two_segments ! i = JObj kv \<and> entries ! i = JObj en
            \<and> map fst en = [''id'', ''start'', ''end'', ''text'', ''gloss'', ''emotion'', ''items'']
            \<and> (\<forall>k\<in>{''id'', ''start'', ''end'', ''text'', ''gloss'', ''emotion''}.
                  \<forall>v. map_of kv k = Some v \<longrightarrow> map_of en k = Some v)
            \<and> (py_get kv ''gloss'' (JList []) = JList [] \<longrightarrow> map_of en ''items'' = Some (JList []))"
    using build_sign_timeline_entries [OF l s two_segments_wf, of "\<lambda>s. s"] by blast
  have one: "(1::nat) < length two_segments" by (simp add: n(1))
  note e(3) [rule_format, OF one]
  then obtain kv en where k:
    "two_segments ! 1 = JObj kv" "entries ! 1 = JObj en"
    "\<forall>k\<in>{''id'', ''start'', ''end'', ''text'', ''gloss'', ''emotion''}.
        \<forall>v. map_of kv k = Some v \<longrightarrow> map_of en k = Some v"
    "py_get kv ''gloss'' (JList []) = JList [] \<longrightarrow> map_of en ''items'' = Some (JList [])"
    by (elim exE conjE) (rule that)
  have kv: "kv = [(''id'', JInt 1), (''start'', JFloat 1.5),
      (''end'', JFloat 2), (''text'', JStr ''of the''), (''gloss'', JList [])]"
    using k(1) n(2) by simp
  have "map_of kv ''id'' = Some (JInt 1)" by (simp add: kv)
  then have i: "map_of en ''id'' = Some (JInt 1)" using k(3) [rule_format, of "''id''" "JInt 1"] by simp
  have "py_get kv ''gloss'' (JList []) = JList []" by (simp add: kv py_get_def)
  then have it: "map_of en ''items'' = Some (JList [])" using k(4) by (rule rev_mp)
  have len: "length entries = 2" using e(2) n(1) by simp
  have inner: "\<exists>en. entries ! 1 = JObj en \<and> map_of en ''id'' = Some (JInt 1)
      \<and> map_of en ''items'' = Some (JList [])"
    using k(2) i it by (intro exI [of _ en] conjI)
  have outer: "\<exists>entries. build_sign_timeline (\<lambda>s. s) None [(''segments'', JList two_segments)]
          = Inr (JObj [(''timeline'', JList entries)])
        \<and> length entries = 2
        \<and> (\<exists>en. entries ! 1 = JObj en \<and> map_of en ''id'' = Some (JInt 1)
              \<and> map_of en ''items'' = Some (JList []))"
    using e(1) len inner by (intro exI [of _ entries] conjI)
  show ?thesis
    by (rule conjI [OF l conjI [OF s conjI [OF two_segments_list outer]]])
qed

lemma assets_without_index:
  assumes "token \<noteq> ''|''"
  shows "\<exists>assets. token_to_assets path_str (JStr token) Map.empty = Inr assets \<and> assets \<noteq> []
     \<and> (\<forall>a\<in>set assets. asset_type a = ''fingerspell'' \<or> asset_type a = ''text'')"
  using assms by (auto simp add: token_to_assets_str filter_empty_conv)

text \<open>
  C8. When nothing is at the dataset path, \<open>load_sign_dict\<close> returns the empty mapping
  and does not raise. With this mapping a token that is no pause marker gives
  fingerspell assets or a text asset, at least one, and the timeline of well-formed
  segments is built, one entry for each segment.
\<close>

theorem missing_dataset_degrades:
  "load_sign_dict None = Inr Map.empty
   \<and> (token \<noteq> ''|'' \<longrightarrow>
        (\<exists>assets. token_to_assets path_str (JStr token) Map.empty = Inr assets \<and> assets \<noteq> []
           \<and> (\<forall>a\<in>set assets. asset_type a = ''fingerspell'' \<or> asset_type a = ''text'')))
   \<and> (map_of gloss_json ''segments'' = Some (JList segs) \<and> (\<forall>seg\<in>set segs. well_formed_segment seg) \<longrightarrow>
        (\<exists>entries. build_sign_timeline path_str None gloss_json = Inr (JObj [(''timeline'', JList entries)])
           \<and> length entries = length segs))"
proof -
  have l: "load_sign_dict None = Inr Map.empty" by (simp add: load_sign_dict_def)
  have "map_of gloss_json ''segments'' = Some (JList segs) \<and> (\<forall>seg\<in>set segs. well_formed_segment seg) \<longrightarrow>
        (\<exists>entries. build_sign_timeline path_str None gloss_json = Inr (JObj [(''timeline'', JList entries)])
           \<and> length entries = length segs)"
    using build_sign_timeline_wf [OF l, of gloss_json segs path_str] by blast
  then show ?thesis using l assets_without_index [of token path_str] by blast
qed

theorem missing_dataset_degrades_witness:
  "''hello'' \<noteq> ''|''
   \<and> (\<exists>assets. token_to_assets (\<lambda>s. s) (JStr ''hello'') Map.empty = Inr assets \<and> assets \<noteq> []
         \<and> (\<forall>a\<in>set assets. asset_type a = ''fingerspell'' \<or> asset_type a = ''text''))
   \<and> list_all well_formed_segment two_segments
   \<and> (\<exists>entries. build_sign_timeline (\<lambda>s. s) None [(''segments'', JList two_segments)]
          = Inr (JObj [(''timeline'', JList entries)]) \<and> length entries = length two_segments)"
  using missing_dataset_degrades [where token = "''hello''" and path_str = "\<lambda>s. s"
      and gloss_json = "[(''segments'', JList two_segments)]" and segs = two_segments]
    two_segments_wf two_segments_list
  by simp

section \<open>The stage cache\<close>









section \<open>Clearing the cache\<close>

lemma unlink_lookup:
  assumes "unlink w p = Inr w'"
  shows "lookup w' q = (if q = p then None else lookup w q)"
  using assms
  by (auto simp add: unlink_def lookup_def delete_conv split: option.splits if_splits node.splits)

lemma unlink_fault:
  assumes "unlink w p = Inr w'"
  shows "fault w' = fault w"
  using assms by (auto simp add: unlink_def split: option.splits if_splits node.splits)

lemma unlink_file:
  assumes "is_file w p" and "fault w Unlink p = None"
  shows "\<exists>w'. unlink w p = Inr w'"
  using assms by (auto simp add: unlink_def is_file_def)

lemma unlink_all_frame:
  assumes "unlink_all w ps = (w', r)" and "q \<notin> set ps"
  shows "lookup w' q = lookup w q"
  using assms
proof (induction ps arbitrary: w)
  case Nil
  then show ?case by simp
next
  case (Cons p ps)
  show ?case
  proof (cases "unlink w p")
    case (Inl e)
    then show ?thesis using Cons.prems by simp
  next
    case (Inr w1)
    then have "unlink_all w1 ps = (w', r)" using Cons.prems by simp
    then have "lookup w' q = lookup w1 q" using Cons.IH Cons.prems(2) by simp
    also have "\<dots> = lookup w q" using unlink_lookup [OF Inr, of q] Cons.prems(2) by simp
    finally show ?thesis .
  qed
qed

lemma unlink_all_gone:
  assumes "unlink_all w ps = (w', Inr ())" and "q \<in> set ps"
  shows "lookup w' q = None"
  using assms
proof (induction ps arbitrary: w)
  case Nil
  then show ?case by simp
next
  case (Cons p ps)
  show ?case
  proof (cases "unlink w p")
    case (Inl e)
    then show ?thesis using Cons.prems by simp
  next
    case (Inr w1)
    then have rest: "unlink_all w1 ps = (w', Inr ())" using Cons.prems by simp
    show ?thesis
    proof (cases "q \<in> set ps")
      case True
      then show ?thesis using Cons.IH rest by simp
    next
      case False
      then have "q = p" using Cons.prems(2) by simp
      have "lookup w' q = lookup w1 q" using unlink_all_frame [OF rest False] .
      also have "\<dots> = None" using unlink_lookup [OF Inr, of q] \<open>q = p\<close> by simp
      finally show ?thesis .
    qed
  qed
qed

lemma unlink_all_files:
  assumes "distinct ps" and "\<forall>p\<in>set ps. is_file w p \<and> fault w Unlink p = None"
  shows "\<exists>w'. unlink_all w ps = (w', Inr ())"
  using assms
proof (induction ps arbitrary: w)
  case Nil
  then show ?case by simp
next
  case (Cons p ps)
  then obtain w1 where u: "unlink w p = Inr w1"
    using unlink_file [of w p] by auto
  have "\<forall>q\<in>set ps. is_file w1 q \<and> fault w1 Unlink q = None"
  proof
    fix q assume q: "q \<in> set ps"
    then have "q \<noteq> p" using Cons.prems(1) by auto
    then have "lookup w1 q = lookup w q" using unlink_lookup [OF u, of q] by simp
    then show "is_file w1 q \<and> fault w1 Unlink q = None"
      using Cons.prems(2) q unlink_fault [OF u] by (simp add: is_file_def)
  qed
  then obtain w' where "unlink_all w1 ps = (w', Inr ())"
    using Cons.IH Cons.prems(1) by auto
  then show ?case using u by simp
qed

lemma glob_json_iff:
  "p \<in> set (glob_json w cache_dir) \<longleftrightarrow>
     p \<in> fst ` set (nodes w) \<and> p \<noteq> [] \<and> butlast p = cache_dir \<and> endswith (last p) ''.json''"
  by (auto simp add: glob_json_def)

lemma glob_json_child:
  assumes "endswith name ''.json''" and "lookup w (cache_dir @ [name]) \<noteq> None"
  shows "cache_dir @ [name] \<in> set (glob_json w cache_dir)"
proof -
  have "cache_dir @ [name] \<in> fst ` set (nodes w)"
    using assms(2) by (simp add: lookup_def map_of_eq_None_iff)
  then show ?thesis using assms(1) by (simp add: glob_json_iff)
qed

lemma distinct_glob_json:
  "distinct (map fst (nodes w)) \<Longrightarrow> distinct (glob_json w cache_dir)"
  by (simp add: glob_json_def)

lemma endswith_append: "endswith (s @ suf) suf"
  by (simp add: endswith_def)

lemma stage_file_json: "endswith (''video_'' @ v @ ''_stage_'' @ st @ ''.json'') ''.json''"
  using endswith_append [of "''video_'' @ v @ ''_stage_'' @ st" "''.json''"] by simp

lemma stage_file_not_combined:
  "stage_cache_file cache_dir v st \<noteq> get_cache_file cache_dir v"
proof
  assume "stage_cache_file cache_dir v st = get_cache_file cache_dir v"
  then have "''video_'' @ v @ ''_stage_'' @ st @ ''.json'' = ''video_'' @ v @ ''.json''"
    by (simp add: stage_cache_file_def get_cache_file_def get_cache_key_def)
  then have "length (''video_'' @ v @ ''_stage_'' @ st @ ''.json'') = length (''video_'' @ v @ ''.json'')"
    by (rule arg_cong)
  then show False by simp
qed

lemma clear_one_frame:
  assumes "p \<noteq> get_cache_file cache_dir v"
  shows "lookup (fst (clear_one w cache_dir v)) p = lookup w p"
proof (cases "exists w (get_cache_file cache_dir v)")
  case False
  then show ?thesis by (simp add: clear_one_def)
next
  case True
  show ?thesis
  proof (cases "unlink w (get_cache_file cache_dir v)")
    case (Inl e)
    then show ?thesis using True by (simp add: clear_one_def)
  next
    case (Inr w')
    then show ?thesis using True assms unlink_lookup [OF Inr, of p] by (simp add: clear_one_def)
  qed
qed

lemma clear_cache_one:
  assumes "v \<noteq> []"
  shows "clear_cache w cache_dir (Some v) =
    (fst (clear_one w cache_dir v),
     case snd (clear_one w cache_dir v) of Inl e \<Rightarrow> Inr (Some False) | Inr r \<Rightarrow> Inr r)"
  using assms by (simp add: clear_cache_def clear_body_def split: prod.split sum.split)

lemma clear_cache_all:
  "clear_cache w cache_dir None =
    (fst (unlink_all w (glob_json w cache_dir)),
     case snd (unlink_all w (glob_json w cache_dir)) of
       Inl e \<Rightarrow> Inr (Some False) | Inr u \<Rightarrow> Inr (Some True))"
  by (simp add: clear_cache_def clear_body_def clear_all_def split: prod.split sum.split)

text \<open>
  C10. \<open>clear_cache\<close> with a video identifier that is not empty changes nothing but the
  combined file \<open>video_<id>.json\<close>: every other path, and so every stage file
  \<open>video_<id>_stage_<stage>.json\<close>, holds what it held. When the combined file is a
  file that can be removed it is removed and the result is \<open>True\<close>; when it does not
  exist nothing changes and the result is \<open>None\<close>, not \<open>True\<close>.
  \<open>clear_cache\<close> with no video identifier removes every entry of the cache directory
  whose name ends in \<open>.json\<close>, the stage files among them: this is so whenever it
  returns \<open>True\<close>, and it returns \<open>True\<close> when these entries are files that can be
  removed.
\<close>

theorem clear_cache_effect:
  "(video_id \<noteq> [] \<longrightarrow>
      (\<forall>p. p \<noteq> get_cache_file cache_dir video_id \<longrightarrow>
          lookup (fst (clear_cache w cache_dir (Some video_id))) p = lookup w p)
      \<and> (\<forall>stage. lookup (fst (clear_cache w cache_dir (Some video_id)))
                    (stage_cache_file cache_dir video_id stage)
                  = lookup w (stage_cache_file cache_dir video_id stage))
      \<and> (is_file w (get_cache_file cache_dir video_id)
           \<and> fault w Unlink (get_cache_file cache_dir video_id) = None \<longrightarrow>
          snd (clear_cache w cache_dir (Some video_id)) = Inr (Some True)
          \<and> lookup (fst (clear_cache w cache_dir (Some video_id)))
               (get_cache_file cache_dir video_id) = None)
      \<and> (\<not> exists w (get_cache_file cache_dir video_id) \<longrightarrow>
          clear_cache w cache_dir (Some video_id) = (w, Inr None)))
   \<and> (snd (clear_cache w cache_dir None) = Inr (Some True) \<longrightarrow>
        (\<forall>name. endswith name ''.json'' \<longrightarrow>
            lookup (fst (clear_cache w cache_dir None)) (cache_dir @ [name]) = None)
        \<and> (\<forall>v stage. lookup (fst (clear_cache w cache_dir None))
                        (stage_cache_file cache_dir v stage) = None))
   \<and> (distinct (map fst (nodes w))
        \<and> (\<forall>p\<in>set (glob_json w cache_dir). is_file w p \<and> fault w Unlink p = None) \<longrightarrow>
        snd (clear_cache w cache_dir None) = Inr (Some True))"
proof (intro conjI impI allI)
  let ?f = "get_cache_file cache_dir video_id"
  show "lookup (fst (clear_cache w cache_dir (Some video_id))) p = lookup w p"
    if "video_id \<noteq> []" and "p \<noteq> ?f" for p
    using that by (simp add: clear_cache_one clear_one_frame)
  show "lookup (fst (clear_cache w cache_dir (Some video_id))) (stage_cache_file cache_dir video_id stage)
      = lookup w (stage_cache_file cache_dir video_id stage)"
    if "video_id \<noteq> []" for stage
    using that by (simp add: clear_cache_one clear_one_frame stage_file_not_combined)
  have del: "clear_one w cache_dir video_id = (w', Inr (Some True)) \<and> lookup w' ?f = None"
    if u: "unlink w ?f = Inr w'" and e: "exists w ?f" for w'
    using u e unlink_lookup [OF u, of ?f] by (simp add: clear_one_def)
  show "snd (clear_cache w cache_dir (Some video_id)) = Inr (Some True)"
    if v: "video_id \<noteq> []" and f: "is_file w ?f \<and> fault w Unlink ?f = None"
  proof -
    obtain w' where u: "unlink w ?f = Inr w'" using f unlink_file by blast
    have "exists w ?f" using f by (auto simp add: exists_def is_file_def)
    then show ?thesis using del [OF u] v by (simp add: clear_cache_one)
  qed
  show "lookup (fst (clear_cache w cache_dir (Some video_id))) ?f = None"
    if v: "video_id \<noteq> []" and f: "is_file w ?f \<and> fault w Unlink ?f = None"
  proof -
    obtain w' where u: "unlink w ?f = Inr w'" using f unlink_file by blast
    have "exists w ?f" using f by (auto simp add: exists_def is_file_def)
    then show ?thesis using del [OF u] v by (simp add: clear_cache_one)
  qed
  show "clear_cache w cache_dir (Some video_id) = (w, Inr None)"
    if "video_id \<noteq> []" and "\<not> exists w ?f"
    using that by (simp add: clear_cache_one clear_one_def)
  have gone: "lookup (fst (clear_cache w cache_dir None)) (cache_dir @ [name]) = None"
    if t: "snd (clear_cache w cache_dir None) = Inr (Some True)" and j: "endswith name ''.json''"
    for name
  proof -
    obtain w' r where ua: "unlink_all w (glob_json w cache_dir) = (w', r)" by fastforce
    then have r: "r = Inr ()" using t by (cases r) (simp_all add: clear_cache_all)
    have w': "fst (clear_cache w cache_dir None) = w'" using ua by (simp add: clear_cache_all)
    show ?thesis
    proof (cases "cache_dir @ [name] \<in> set (glob_json w cache_dir)")
      case True
      then show ?thesis using unlink_all_gone ua r w' by blast
    next
      case False
      then have "lookup w (cache_dir @ [name]) = None" using glob_json_child [OF j] by blast
      then show ?thesis using unlink_all_frame [OF ua False] w' by simp
    qed
  qed
  show "lookup (fst (clear_cache w cache_dir None)) (cache_dir @ [name]) = None"
    if "snd (clear_cache w cache_dir None) = Inr (Some True)" and "endswith name ''.json''" for name
    using that by (rule gone)
  show "lookup (fst (clear_cache w cache_dir None)) (stage_cache_file cache_dir v stage) = None"
    if "snd (clear_cache w cache_dir None) = Inr (Some True)" for v stage
    unfolding stage_cache_file_def using that stage_file_json by (rule gone)
  show "snd (clear_cache w cache_dir None) = Inr (Some True)"
    if h: "distinct (map fst (nodes w))
        \<and> (\<forall>p\<in>set (glob_json w cache_dir). is_file w p \<and> fault w Unlink p = None)"
  proof -
    have "distinct (glob_json w cache_dir)" using h distinct_glob_json by blast
    then obtain w' where "unlink_all w (glob_json w cache_dir) = (w', Inr ())"
      using h unlink_all_files by blast
    then show ?thesis by (simp add: clear_cache_all)
  qed
qed


lemma example_cache_facts:
  "is_file example_cache (get_cache_file [''cache''] ''abc'')"
  "fault example_cache Unlink (get_cache_file [''cache''] ''abc'') = None"
  "\<not> exists example_cache (get_cache_file [''cache''] ''xyz'')"
  "distinct (map fst (nodes example_cache))"
  "lookup example_cache (stage_cache_file [''cache''] ''abc'' ''gloss'')
     = Some (File (Valid (JObj [(''segments'', JList [])])))"
  by (simp_all add: example_cache_def is_file_def exists_def lookup_def get_cache_file_def
      get_cache_key_def stage_cache_file_def)

lemma example_cache_glob:
  "glob_json example_cache [''cache''] =
     [[''cache'', ''video_abc.json''], [''cache'', ''video_abc_stage_gloss.json''],
      [''cache'', ''video_abc_stage_timeline.json'']]"
  by (simp add: glob_json_def example_cache_def endswith_def)

lemma example_cache_files:
  "\<forall>p\<in>set (glob_json example_cache [''cache'']). is_file example_cache p \<and> fault example_cache Unlink p = None"
  unfolding example_cache_glob by (simp add: example_cache_def is_file_def lookup_def)

theorem clear_cache_effect_witness:
  "''abc'' \<noteq> []
   \<and> is_file example_cache (get_cache_file [''cache''] ''abc'')
   \<and> snd (clear_cache example_cache [''cache''] (Some ''abc'')) = Inr (Some True)
   \<and> lookup (fst (clear_cache example_cache [''cache''] (Some ''abc''))) (get_cache_file [''cache''] ''abc'') = None
   \<and> lookup (fst (clear_cache example_cache [''cache''] (Some ''abc''))) (stage_cache_file [''cache''] ''abc'' ''gloss'')
       = Some (File (Valid (JObj [(''segments'', JList [])])))
   \<and> \<not> exists example_cache (get_cache_file [''cache''] ''xyz'')
   \<and> clear_cache example_cache [''cache''] (Some ''xyz'') = (example_cache, Inr None)
   \<and> distinct (map fst (nodes example_cache))
   \<and> snd (clear_cache example_cache [''cache''] None) = Inr (Some True)
   \<and> lookup (fst (clear_cache example_cache [''cache''] None)) (stage_cache_file [''cache''] ''abc'' ''gloss'') = None"
proof -
  note abc = clear_cache_effect [where w = example_cache and cache_dir = "[''cache'']" and video_id = "''abc''"]
  note xyz = clear_cache_effect [where w = example_cache and cache_dir = "[''cache'']" and video_id = "''xyz''"]
  have ne: "''abc'' \<noteq> []" "''xyz'' \<noteq> []" by simp_all
  note one = abc [THEN conjunct1, rule_format, OF ne(1)]
  have stage: "lookup (fst (clear_cache example_cache [''cache''] (Some ''abc''))) (stage_cache_file [''cache''] ''abc'' ''gloss'')
       = Some (File (Valid (JObj [(''segments'', JList [])])))"
    using one [THEN conjunct2, THEN conjunct1, rule_format, of "''gloss''"] example_cache_facts(5) by simp
  have del: "snd (clear_cache example_cache [''cache''] (Some ''abc'')) = Inr (Some True)
       \<and> lookup (fst (clear_cache example_cache [''cache''] (Some ''abc''))) (get_cache_file [''cache''] ''abc'') = None"
    using one [THEN conjunct2, THEN conjunct2, THEN conjunct1] example_cache_facts(1,2) by (rule mp [OF _ conjI])
  have none: "clear_cache example_cache [''cache''] (Some ''xyz'') = (example_cache, Inr None)"
    using xyz [THEN conjunct1, rule_format, OF ne(2), THEN conjunct2, THEN conjunct2, THEN conjunct2]
      example_cache_facts(3) by (rule mp)
  have alltrue: "snd (clear_cache example_cache [''cache''] None) = Inr (Some True)"
    using abc [THEN conjunct2, THEN conjunct2] conjI [OF example_cache_facts(4) example_cache_files]
    by (rule mp)
  have allgone: "lookup (fst (clear_cache example_cache [''cache''] None)) (stage_cache_file [''cache''] ''abc'' ''gloss'') = None"
    using abc [THEN conjunct2, THEN conjunct1, rule_format, OF alltrue, THEN conjunct2, rule_format, of "''abc''" "''gloss''"] .
  show ?thesis
    apply (intro conjI)
             apply (fact ne(1))
            apply (fact example_cache_facts(1))
           apply (fact del [THEN conjunct1])
          apply (fact del [THEN conjunct2])
         apply (fact stage)
        apply (fact example_cache_facts(3))
       apply (fact none)
      apply (fact example_cache_facts(4))
     apply (fact alltrue)
    apply (fact allgone)
    done
qed

section \<open>The emotion stage\<close>











end
